theory Spec2Isabelle
  imports Main "HOL-Library.Word" "HOL-Library.Signed_Division"
begin

unbundle bit_operations_syntax

section \<open>Day 17: the chronospatial computer\<close>

text \<open>
  The development follows \<^verbatim>\<open>day17.hpp\<close> and \<^verbatim>\<open>day17.cpp\<close> (namespace
  \<^verbatim>\<open>aoc::day17\<close>). The C++ types are read on a 64-bit target: \<^verbatim>\<open>int64_t\<close>
  and \<^verbatim>\<open>size_t\<close> are 64-bit words, \<^verbatim>\<open>int\<close> is a 32-bit word; signed
  values are read with \<open>sint\<close>. A name of the source that ends in an underscore
  (\<^verbatim>\<open>program_\<close>, \<^verbatim>\<open>state_\<close>, \<^verbatim>\<open>output_\<close>) carries the suffix \<open>m\<close> here.
\<close>

subsection \<open>Data\<close>

text \<open>
  \<^verbatim>\<open>struct ParsedInput { int64_t A; int64_t B; int64_t C; std::vector<int> program; }\<close>.
  The parser declares \<^verbatim>\<open>ParsedInput result;\<close> without an initialiser, so a register
  member holds no value until a line assigns it: \<open>None\<close> is a member never assigned.
\<close>

record ParsedInput =
  A :: "64 word option"
  B :: "64 word option"
  C :: "64 word option"
  program :: "32 word list"

record ComputerState =
  A :: "64 word"
  B :: "64 word"
  C :: "64 word"
  instructionPointer :: "64 word"

record Program =
  instructions :: "32 word list"

record Computer =
  program_m :: Program
  state_m :: ComputerState
  output_m :: "32 word list"

text \<open>
  The exceptions of the standard library that the code can raise, and the ways a step
  can fail to produce a next state: an exception propagates out of the member function and
  leaves the object as it was at the \<^verbatim>\<open>throw\<close> (the state it carries); a shift whose
  count is negative or not below the width has no defined behaviour in C++.
\<close>

datatype exn = OutOfRange | InvalidArgument

datatype fault = Thrown exn Computer | Undefined

subsection \<open>The computer\<close>

text \<open>\<^verbatim>\<open>Computer::Computer(const Program&, int64_t A, int64_t B, int64_t C)\<close>\<close>

definition Computer :: "Program \<Rightarrow> 64 word \<Rightarrow> 64 word \<Rightarrow> 64 word \<Rightarrow> Computer" where
  "Computer p a b c =
     \<lparr>program_m = p,
      state_m = \<lparr>A = a, B = b, C = c, instructionPointer = 0\<rparr>,
      output_m = []\<rparr>"

text \<open>\<^verbatim>\<open>std::vector::at\<close>: range-checked access with a \<^verbatim>\<open>size_t\<close> index.\<close>

definition at_vec :: "'a list \<Rightarrow> 64 word \<Rightarrow> exn + 'a" where
  "at_vec xs i = (if unat i < length xs then Inr (xs ! unat i) else Inl OutOfRange)"

text \<open>\<^verbatim>\<open>int64_t Computer::resolveCombo(int operand) const\<close>\<close>

definition resolveCombo :: "Computer \<Rightarrow> 32 word \<Rightarrow> 64 word" where
  "resolveCombo c operand =
     (if operand = 0 \<or> operand = 1 \<or> operand = 2 \<or> operand = 3 then scast operand
      else if operand = 4 then A (state_m c)
      else if operand = 5 then B (state_m c)
      else if operand = 6 then C (state_m c)
      else 0)"

text \<open>
  \<^verbatim>\<open>x >> n\<close> on \<^verbatim>\<open>int64_t\<close>: the arithmetic shift when \<open>0 \<le> n < 64\<close>, no
  defined result otherwise.
\<close>

definition shr :: "64 word \<Rightarrow> 64 word \<Rightarrow> 64 word option" where
  "shr x n =
     (if 0 \<le> sint n \<and> sint n < 64 then Some (signed_drop_bit (nat (sint n)) x) else None)"

text \<open>\<^verbatim>\<open>x % 8\<close> on \<^verbatim>\<open>int64_t\<close>: the remainder of the division that truncates towards zero.\<close>

definition rem8 :: "64 word \<Rightarrow> 64 word" where
  "rem8 x = word_of_int (sint x smod 8)"

text \<open>\<^verbatim>\<open>bool Computer::isHalted() const\<close>\<close>

definition isHalted :: "Computer \<Rightarrow> bool" where
  "isHalted c \<longleftrightarrow>
     length (instructions (program_m c)) \<le> unat (instructionPointer (state_m c))"

text \<open>
  The \<^verbatim>\<open>switch (opcode)\<close> of \<^verbatim>\<open>executeInstruction\<close>: the state after the selected
  case, with the local \<^verbatim>\<open>jumped\<close>.
\<close>

definition switch_opcode :: "Computer \<Rightarrow> 32 word \<Rightarrow> 32 word \<Rightarrow> fault + (Computer \<times> bool)" where
  "switch_opcode c opcode operand =
     (let st = state_m c in
      if opcode = 0 then
        (case shr (A st) (resolveCombo c operand) of
           None \<Rightarrow> Inl Undefined
         | Some v \<Rightarrow> Inr (c\<lparr>state_m := st\<lparr>A := v\<rparr>\<rparr>, False))
      else if opcode = 1 then
        Inr (c\<lparr>state_m := st\<lparr>B := B st XOR scast operand\<rparr>\<rparr>, False)
      else if opcode = 2 then
        Inr (c\<lparr>state_m := st\<lparr>B := rem8 (resolveCombo c operand)\<rparr>\<rparr>, False)
      else if opcode = 3 then
        (if A st \<noteq> 0
         then Inr (c\<lparr>state_m := st\<lparr>instructionPointer := scast operand\<rparr>\<rparr>, True)
         else Inr (c, False))
      else if opcode = 4 then
        Inr (c\<lparr>state_m := st\<lparr>B := B st XOR C st\<rparr>\<rparr>, False)
      else if opcode = 5 then
        Inr (c\<lparr>output_m := output_m c @ [scast (rem8 (resolveCombo c operand))]\<rparr>, False)
      else if opcode = 6 then
        (case shr (A st) (resolveCombo c operand) of
           None \<Rightarrow> Inl Undefined
         | Some v \<Rightarrow> Inr (c\<lparr>state_m := st\<lparr>B := v\<rparr>\<rparr>, False))
      else if opcode = 7 then
        (case shr (A st) (resolveCombo c operand) of
           None \<Rightarrow> Inl Undefined
         | Some v \<Rightarrow> Inr (c\<lparr>state_m := st\<lparr>C := v\<rparr>\<rparr>, False))
      else Inr (c, False))"

text \<open>\<^verbatim>\<open>state_.instructionPointer += 2\<close>\<close>

definition advance :: "Computer \<Rightarrow> Computer" where
  "advance c =
     c\<lparr>state_m := (state_m c)\<lparr>instructionPointer := instructionPointer (state_m c) + 2\<rparr>\<rparr>"

text \<open>\<^verbatim>\<open>void Computer::executeInstruction()\<close>\<close>

definition executeInstruction :: "Computer \<Rightarrow> fault + Computer" where
  "executeInstruction c =
     (if isHalted c then Inr c
      else
        case at_vec (instructions (program_m c)) (instructionPointer (state_m c)) of
          Inl e \<Rightarrow> Inl (Thrown e c)
        | Inr opcode \<Rightarrow>
            (case at_vec (instructions (program_m c)) (instructionPointer (state_m c) + 1) of
               Inl e \<Rightarrow> Inl (Thrown e c)
             | Inr operand \<Rightarrow>
                 (case switch_opcode c opcode operand of
                    Inl f \<Rightarrow> Inl f
                  | Inr (c', jumped) \<Rightarrow> Inr (if \<not> jumped then advance c' else c'))))"

text \<open>
  \<^verbatim>\<open>void Computer::run() { while (!isHalted()) { executeInstruction(); } }\<close>.
  The loop need not end (a jump can go back), so \<open>run\<close> is a partial function:
  \<open>None\<close> is a run that never returns, \<open>Some (Inl f)\<close> one that a fault ends,
  \<open>Some (Inr c)\<close> one that returns with the object in state \<open>c\<close>.
\<close>

partial_function (option) run :: "Computer \<Rightarrow> (fault + Computer) option" where
  "run c =
     (if isHalted c then Some (Inr c)
      else case executeInstruction c of
             Inl f \<Rightarrow> Some (Inl f)
           | Inr c' \<Rightarrow> run c')"

text \<open>
  \<open>steps n c\<close> is the outcome of \<open>n\<close> consecutive calls of
  \<^verbatim>\<open>executeInstruction\<close>; \<open>finished r\<close> says that the loop of \<^verbatim>\<open>run\<close> stops
  at the outcome \<open>r\<close>.
\<close>

fun steps :: "nat \<Rightarrow> Computer \<Rightarrow> fault + Computer" where
  "steps 0 c = Inr c"
| "steps (Suc n) c =
     (case executeInstruction c of
        Inl f \<Rightarrow> Inl f
      | Inr c' \<Rightarrow> steps n c')"

fun finished :: "fault + Computer \<Rightarrow> bool" where
  "finished (Inl f) = True"
| "finished (Inr c) = isHalted c"

subsection \<open>Parsing\<close>

text \<open>
  The functions of the standard library that \<^verbatim>\<open>parseInput\<close> calls, for strings of
  bytes in the \<^verbatim>\<open>"C"\<close> locale.

  \<^verbatim>\<open>std::string::starts_with\<close>, and \<^verbatim>\<open>std::string::substr(pos)\<close>, which raises
  \<^verbatim>\<open>std::out_of_range\<close> when \<open>pos\<close> is beyond the size of the string.
\<close>

definition starts_with :: "string \<Rightarrow> string \<Rightarrow> bool" where
  "starts_with s pre \<longleftrightarrow> take (length pre) s = pre"

definition substr :: "string \<Rightarrow> nat \<Rightarrow> exn + string" where
  "substr s pos = (if length s < pos then Inl OutOfRange else Inr (drop pos s))"

text \<open>\<^verbatim>\<open>isspace\<close>: space, \<^verbatim>\<open>\t \n \v \f \r\<close>; \<^verbatim>\<open>isdigit\<close>: \<^verbatim>\<open>0\<close> to \<^verbatim>\<open>9\<close>.\<close>

definition isspace :: "char \<Rightarrow> bool" where
  "isspace ch \<longleftrightarrow>
     ch = CHR '' '' \<or> ch = CHR 0x09 \<or> ch = CHR 0x0A \<or> ch = CHR 0x0B \<or> ch = CHR 0x0C
     \<or> ch = CHR 0x0D"

definition isdigit :: "char \<Rightarrow> bool" where
  "isdigit ch \<longleftrightarrow> (48 :: int) \<le> of_char ch \<and> (of_char ch :: int) \<le> 57"

definition digits_value :: "string \<Rightarrow> int" where
  "digits_value ds = foldl (\<lambda>acc ch. 10 * acc + (of_char ch - 48)) 0 ds"

text \<open>
  The scan of \<^verbatim>\<open>strtol\<close> and \<^verbatim>\<open>strtoll\<close> in base 10: leading white space is
  skipped, one sign is accepted, then the longest run of digits is read and whatever
  follows is ignored. \<open>None\<close> when no digit was read (no conversion); otherwise the
  value of the digits as a mathematical integer, which the callers compare with the
  range of their type.
\<close>

definition strtol_value :: "string \<Rightarrow> int option" where
  "strtol_value s =
     (let s1 = dropWhile isspace s;
          neg = (s1 \<noteq> [] \<and> hd s1 = CHR ''-'');
          s2 = (if s1 \<noteq> [] \<and> (hd s1 = CHR ''-'' \<or> hd s1 = CHR ''+'') then tl s1 else s1);
          ds = takeWhile isdigit s2
      in if ds = [] then None
         else Some (if neg then - digits_value ds else digits_value ds))"

text \<open>
  \<^verbatim>\<open>std::stoll\<close> and \<^verbatim>\<open>std::stoi\<close>: \<^verbatim>\<open>std::invalid_argument\<close> when nothing was
  converted, \<^verbatim>\<open>std::out_of_range\<close> when the value does not fit the result type.
\<close>

definition stoll :: "string \<Rightarrow> exn + 64 word" where
  "stoll s =
     (case strtol_value s of
        None \<Rightarrow> Inl InvalidArgument
      | Some v \<Rightarrow>
          if - (2 ^ 63) \<le> v \<and> v < 2 ^ 63 then Inr (word_of_int v) else Inl OutOfRange)"

definition stoi :: "string \<Rightarrow> exn + 32 word" where
  "stoi s =
     (case strtol_value s of
        None \<Rightarrow> Inl InvalidArgument
      | Some v \<Rightarrow>
          if - (2 ^ 31) \<le> v \<and> v < 2 ^ 31 then Inr (word_of_int v) else Inl OutOfRange)"

text \<open>
  \<^verbatim>\<open>std::getline(ss, token, delim)\<close> on a stream whose unread content is \<open>s\<close>:
  it fails when nothing is left; otherwise it yields the characters before the first
  delimiter (the delimiter is consumed, not stored) and leaves the rest unread.
\<close>

definition getline :: "string \<Rightarrow> char \<Rightarrow> (string \<times> string) option" where
  "getline s delim =
     (if s = [] then None
      else Some (takeWhile (\<lambda>ch. ch \<noteq> delim) s, drop 1 (dropWhile (\<lambda>ch. ch \<noteq> delim) s)))"

text \<open>
  \<^verbatim>\<open>while (std::getline(ss, token, ',')) { result.program.push_back(std::stoi(token)); }\<close>
\<close>

function push_tokens :: "32 word list \<Rightarrow> string \<Rightarrow> exn + 32 word list" where
  "push_tokens prog ss =
     (case getline ss CHR '','' of
        None \<Rightarrow> Inr prog
      | Some (token, rest) \<Rightarrow>
          (case stoi token of
             Inl e \<Rightarrow> Inl e
           | Inr v \<Rightarrow> push_tokens (prog @ [v]) rest))"
  by pat_completeness auto
termination
proof (relation "measure (\<lambda>(prog, ss). length ss)")
  show "wf (measure (\<lambda>(prog, ss). length ss))"
    by simp
next
  fix prog :: "32 word list" and ss x2 token rest and v :: "32 word"
  assume g: "getline ss CHR '','' = Some x2" and x: "(token, rest) = x2"
  from g x have "ss \<noteq> []" and "rest = drop 1 (dropWhile (\<lambda>ch. ch \<noteq> CHR '','') ss)"
    by (auto simp: getline_def split: if_splits)
  moreover have "length (dropWhile (\<lambda>ch. ch \<noteq> CHR '','') ss) \<le> length ss"
    by (rule length_dropWhile_le)
  ultimately have "length rest < length ss"
    by (cases ss) auto
  then show "((prog @ [v], rest), (prog, ss)) \<in> measure (\<lambda>(prog, ss). length ss)"
    by simp
qed

text \<open>The body of the loop of \<^verbatim>\<open>parseInput\<close> over the lines: the chain of \<^verbatim>\<open>if\<close>s.\<close>

definition parseLine :: "ParsedInput \<Rightarrow> string \<Rightarrow> exn + ParsedInput" where
  "parseLine result line =
     (if starts_with line ''Register A:'' then
        (case substr line 11 of
           Inl e \<Rightarrow> Inl e
         | Inr s \<Rightarrow> (case stoll s of
                        Inl e \<Rightarrow> Inl e
                      | Inr v \<Rightarrow> Inr (result\<lparr>ParsedInput.A := Some v\<rparr>)))
      else if starts_with line ''Register B:'' then
        (case substr line 11 of
           Inl e \<Rightarrow> Inl e
         | Inr s \<Rightarrow> (case stoll s of
                        Inl e \<Rightarrow> Inl e
                      | Inr v \<Rightarrow> Inr (result\<lparr>ParsedInput.B := Some v\<rparr>)))
      else if starts_with line ''Register C:'' then
        (case substr line 11 of
           Inl e \<Rightarrow> Inl e
         | Inr s \<Rightarrow> (case stoll s of
                        Inl e \<Rightarrow> Inl e
                      | Inr v \<Rightarrow> Inr (result\<lparr>ParsedInput.C := Some v\<rparr>)))
      else if starts_with line ''Program:'' then
        (case substr line 9 of
           Inl e \<Rightarrow> Inl e
         | Inr program_str \<Rightarrow>
             (case push_tokens (program result) program_str of
                Inl e \<Rightarrow> Inl e
              | Inr prog \<Rightarrow> Inr (result\<lparr>program := prog\<rparr>)))
      else Inr result)"

fun parseLines :: "ParsedInput \<Rightarrow> string list \<Rightarrow> exn + ParsedInput" where
  "parseLines result [] = Inr result"
| "parseLines result (line # rest) =
     (case parseLine result line of
        Inl e \<Rightarrow> Inl e
      | Inr result' \<Rightarrow> parseLines result' rest)"

text \<open>\<^verbatim>\<open>ParsedInput parseInput(const std::vector<std::string>& input)\<close>\<close>

definition parseInput :: "string list \<Rightarrow> exn + ParsedInput" where
  "parseInput input =
     parseLines
       \<lparr>ParsedInput.A = None, ParsedInput.B = None, ParsedInput.C = None, program = []\<rparr>
       input"

subsection \<open>Predicates of the proofs\<close>

text \<open>
  \<open>nonneg_inputs c\<close>: the three registers and every entry of the program are
  non-negative. \<open>emitted_ok nn vs\<close>: every value of \<open>vs\<close> is in \<open>[-7, 7]\<close>, and in
  \<open>[0, 7]\<close> when \<open>nn\<close> holds.
\<close>

definition nonneg_inputs :: "Computer \<Rightarrow> bool" where
  "nonneg_inputs c \<longleftrightarrow>
     0 \<le> sint (A (state_m c)) \<and> 0 \<le> sint (B (state_m c)) \<and> 0 \<le> sint (C (state_m c))
     \<and> (\<forall>x \<in> set (instructions (program_m c)). 0 \<le> sint x)"

definition emitted_ok :: "bool \<Rightarrow> 32 word list \<Rightarrow> bool" where
  "emitted_ok nn vs \<longleftrightarrow>
     (\<forall>v \<in> set vs. - 7 \<le> sint v \<and> sint v \<le> 7 \<and> (nn \<longrightarrow> 0 \<le> sint v))"

section \<open>Properties of the computer\<close>

subsection \<open>Single steps\<close>

text \<open>
  C10. In a state that is already halted (instruction pointer at or beyond the length
  of the program) a call of \<^verbatim>\<open>executeInstruction\<close> is a no-op: it returns the very
  same object (registers, instruction pointer, output and program unchanged) and
  raises nothing.
\<close>

theorem executeInstruction_halted_noop:
  "isHalted c \<Longrightarrow> executeInstruction c = Inr c"
  by (simp add: executeInstruction_def)

theorem executeInstruction_halted_noop_witness:
  "isHalted \<lparr>program_m = \<lparr>instructions = [5, 4]\<rparr>,
             state_m = \<lparr>A = 10, B = 0, C = 0, instructionPointer = 2\<rparr>,
             output_m = [2]\<rparr>
   \<and> executeInstruction \<lparr>program_m = \<lparr>instructions = [5, 4]\<rparr>,
             state_m = \<lparr>A = 10, B = 0, C = 0, instructionPointer = 2\<rparr>,
             output_m = [2]\<rparr>
     = Inr \<lparr>program_m = \<lparr>instructions = [5, 4]\<rparr>,
             state_m = \<lparr>A = 10, B = 0, C = 0, instructionPointer = 2\<rparr>,
             output_m = [2]\<rparr>"
proof -
  have h: "isHalted \<lparr>program_m = \<lparr>instructions = [5, 4]\<rparr>,
             state_m = \<lparr>A = 10, B = 0, C = 0, instructionPointer = 2\<rparr>,
             output_m = [2]\<rparr>"
    by (simp add: isHalted_def)
  show ?thesis
    by (rule conjI [OF h executeInstruction_halted_noop [OF h]])
qed

text \<open>
  C2. In a running state whose instruction pointer is the last index of the program
  (so that the operand at pointer + 1 is out of bounds), a step fails: the second
  \<^verbatim>\<open>at\<close> raises \<^verbatim>\<open>std::out_of_range\<close>, which is how the code signals the
  truncated program, before anything is assigned, so the object is left as it was and no
  default operand is used. (The size of a \<^verbatim>\<open>std::vector\<close> is a \<^verbatim>\<open>size_t\<close>,
  hence below \<open>2 ^ 64\<close>.)
\<close>

theorem executeInstruction_truncated_throws:
  assumes "unat (instructionPointer (state_m c)) + 1 = length (instructions (program_m c))"
      and "length (instructions (program_m c)) < 2 ^ 64"
  shows "\<not> isHalted c \<and> executeInstruction c = Inl (Thrown OutOfRange c)"
proof -
  let ?ip = "instructionPointer (state_m c)"
  have "unat ?ip + 1 < 2 ^ 64"
    using assms by simp
  then have "unat (?ip + 1) = unat ?ip + 1"
    by (simp add: unat_word_ariths)
  with assms show ?thesis
    by (simp add: executeInstruction_def isHalted_def at_vec_def)
qed

theorem executeInstruction_truncated_throws_witness:
  "unat (2 :: 64 word) + 1 = length [5, 0, 3 :: 32 word]
   \<and> executeInstruction \<lparr>program_m = \<lparr>instructions = [5, 0, 3]\<rparr>,
         state_m = \<lparr>A = 7, B = 0, C = 0, instructionPointer = 2\<rparr>,
         output_m = [0]\<rparr>
     = Inl (Thrown OutOfRange \<lparr>program_m = \<lparr>instructions = [5, 0, 3]\<rparr>,
         state_m = \<lparr>A = 7, B = 0, C = 0, instructionPointer = 2\<rparr>,
         output_m = [0]\<rparr>)"
  using executeInstruction_truncated_throws
    [of "\<lparr>program_m = \<lparr>instructions = [5, 0, 3]\<rparr>,
         state_m = \<lparr>A = 7, B = 0, C = 0, instructionPointer = 2\<rparr>,
         output_m = [0]\<rparr>"]
  by simp

text \<open>
  C7. In a state whose current opcode is 3 (jump-if-A-nonzero) and whose register A is
  0, one step only adds 2 to the instruction pointer: the three registers, the output
  and the program are unchanged, whatever the operand is.
\<close>

theorem jnz_zero_falls_through:
  assumes "at_vec (instructions (program_m c)) (instructionPointer (state_m c)) = Inr 3"
      and "at_vec (instructions (program_m c)) (instructionPointer (state_m c) + 1)
             = Inr operand"
      and "A (state_m c) = 0"
  shows "executeInstruction c =
           Inr (c\<lparr>state_m := (state_m c)
                  \<lparr>instructionPointer := instructionPointer (state_m c) + 2\<rparr>\<rparr>)
         \<and> (length (instructions (program_m c)) < 2 ^ 64 \<longrightarrow>
              unat (instructionPointer (state_m c) + 2)
                = unat (instructionPointer (state_m c)) + 2)"
proof -
  let ?ip = "instructionPointer (state_m c)"
  let ?n = "length (instructions (program_m c))"
  have run: "\<not> isHalted c"
    using assms(1) by (auto simp: at_vec_def isHalted_def split: if_splits)
  have step: "executeInstruction c =
           Inr (c\<lparr>state_m := (state_m c)\<lparr>instructionPointer := ?ip + 2\<rparr>\<rparr>)"
    using run assms by (simp add: executeInstruction_def switch_opcode_def advance_def)
  have "unat (?ip + 2) = unat ?ip + 2" if len: "?n < 2 ^ 64"
  proof -
    have a: "unat ?ip < ?n" and b: "unat (?ip + 1) < ?n"
      using assms(1,2) by (auto simp: at_vec_def split: if_splits)
    have "unat ?ip + 1 < 2 ^ 64"
      using a len by simp
    then have c: "unat (?ip + 1) = unat ?ip + 1"
      by (simp add: unat_word_ariths)
    have "unat ?ip + 2 < 2 ^ 64"
      using b c len by simp
    then show ?thesis
      by (simp add: unat_word_ariths)
  qed
  with step show ?thesis
    by blast
qed

theorem jnz_zero_falls_through_witness:
  "at_vec [3, 0, 5, 5 :: 32 word] (0 :: 64 word) = Inr 3
   \<and> at_vec [3, 0, 5, 5 :: 32 word] (0 + 1 :: 64 word) = Inr 0
   \<and> executeInstruction \<lparr>program_m = \<lparr>instructions = [3, 0, 5, 5]\<rparr>,
         state_m = \<lparr>A = 0, B = 6, C = 9, instructionPointer = 0\<rparr>,
         output_m = [1]\<rparr>
     = Inr \<lparr>program_m = \<lparr>instructions = [3, 0, 5, 5]\<rparr>,
         state_m = \<lparr>A = 0, B = 6, C = 9, instructionPointer = 2\<rparr>,
         output_m = [1]\<rparr>"
  using jnz_zero_falls_through
    [of "\<lparr>program_m = \<lparr>instructions = [3, 0, 5, 5]\<rparr>,
         state_m = \<lparr>A = 0, B = 6, C = 9, instructionPointer = 0\<rparr>,
         output_m = [1]\<rparr>" 0]
  by (simp add: at_vec_def)

text \<open>
  C8. Opcode 1 executed twice in a row with the same literal operand brings register B
  back to its value: after the first step B is \<open>B XOR l\<close>, after the second the
  state differs from the initial one in the instruction pointer only. This holds for
  every operand \<open>l\<close>, so in particular for the literals 0 to 7.
\<close>

theorem bxl_twice_restores_B:
  assumes "at_vec (instructions (program_m c)) (instructionPointer (state_m c)) = Inr 1"
      and "at_vec (instructions (program_m c)) (instructionPointer (state_m c) + 1) = Inr l"
      and "at_vec (instructions (program_m c)) (instructionPointer (state_m c) + 2) = Inr 1"
      and "at_vec (instructions (program_m c)) (instructionPointer (state_m c) + 3) = Inr l"
  shows "executeInstruction c =
           Inr (c\<lparr>state_m := (state_m c)
                  \<lparr>B := B (state_m c) XOR scast l,
                   instructionPointer := instructionPointer (state_m c) + 2\<rparr>\<rparr>)
         \<and> executeInstruction
             (c\<lparr>state_m := (state_m c)
                  \<lparr>B := B (state_m c) XOR scast l,
                   instructionPointer := instructionPointer (state_m c) + 2\<rparr>\<rparr>) =
           Inr (c\<lparr>state_m := (state_m c)
                  \<lparr>instructionPointer := instructionPointer (state_m c) + 4\<rparr>\<rparr>)"
proof -
  let ?ip = "instructionPointer (state_m c)"
  let ?c1 = "c\<lparr>state_m := (state_m c)\<lparr>B := B (state_m c) XOR scast l,
                 instructionPointer := ?ip + 2\<rparr>\<rparr>"
  have h0: "\<not> isHalted c"
    using assms(1) by (auto simp: at_vec_def isHalted_def split: if_splits)
  have h1: "\<not> isHalted ?c1"
    using assms(3) by (auto simp: at_vec_def isHalted_def split: if_splits)
  have s1: "executeInstruction c = Inr ?c1"
    using h0 assms(1,2)
    by (simp add: executeInstruction_def switch_opcode_def advance_def Let_def)
  have a4: "at_vec (instructions (program_m c)) (?ip + 2 + 1) = Inr l"
    using assms(4) by (simp add: add.assoc)
  have s2: "executeInstruction ?c1 =
      Inr (c\<lparr>state_m := (state_m c)\<lparr>B := (B (state_m c) XOR scast l) XOR scast l,
                 instructionPointer := ?ip + 2 + 2\<rparr>\<rparr>)"
    using h1 assms(3) a4
    by (simp add: executeInstruction_def switch_opcode_def advance_def Let_def)
  have x: "(B (state_m c) XOR scast l) XOR scast l = B (state_m c)"
    by (simp add: xor.assoc)
  have "executeInstruction ?c1 =
      Inr (c\<lparr>state_m := (state_m c)\<lparr>instructionPointer := ?ip + 4\<rparr>\<rparr>)"
    unfolding s2 x by (simp add: add.assoc)
  with s1 show ?thesis
    by (rule conjI)
qed

theorem bxl_twice_restores_B_witness:
  "at_vec [1, 5, 1, 5 :: 32 word] (0 :: 64 word) = Inr 1
   \<and> at_vec [1, 5, 1, 5 :: 32 word] (0 + 1 :: 64 word) = Inr 5
   \<and> at_vec [1, 5, 1, 5 :: 32 word] (0 + 2 :: 64 word) = Inr 1
   \<and> at_vec [1, 5, 1, 5 :: 32 word] (0 + 3 :: 64 word) = Inr 5
   \<and> executeInstruction \<lparr>program_m = \<lparr>instructions = [1, 5, 1, 5]\<rparr>,
         state_m = \<lparr>A = 0, B = 29, C = 0, instructionPointer = 0\<rparr>,
         output_m = []\<rparr>
     = Inr \<lparr>program_m = \<lparr>instructions = [1, 5, 1, 5]\<rparr>,
         state_m = \<lparr>A = 0, B = 24, C = 0, instructionPointer = 2\<rparr>,
         output_m = []\<rparr>
   \<and> executeInstruction \<lparr>program_m = \<lparr>instructions = [1, 5, 1, 5]\<rparr>,
         state_m = \<lparr>A = 0, B = 24, C = 0, instructionPointer = 2\<rparr>,
         output_m = []\<rparr>
     = Inr \<lparr>program_m = \<lparr>instructions = [1, 5, 1, 5]\<rparr>,
         state_m = \<lparr>A = 0, B = 29, C = 0, instructionPointer = 4\<rparr>,
         output_m = []\<rparr>"
  using bxl_twice_restores_B
    [of "\<lparr>program_m = \<lparr>instructions = [1, 5, 1, 5]\<rparr>,
         state_m = \<lparr>A = 0, B = 29, C = 0, instructionPointer = 0\<rparr>,
         output_m = []\<rparr>" 5]
  by (simp add: at_vec_def)

subsection \<open>Runs\<close>

text \<open>
  C9. On a program of length 0 the run halts at once, whatever the initial registers:
  the constructed computer is already halted, so \<^verbatim>\<open>run\<close> returns after zero steps
  with the object as constructed, that is with the initial registers and an empty
  output.
\<close>

theorem run_empty_program:
  "isHalted (Computer \<lparr>instructions = []\<rparr> a b c)
   \<and> run (Computer \<lparr>instructions = []\<rparr> a b c)
       = Some (Inr \<lparr>program_m = \<lparr>instructions = []\<rparr>,
                    state_m = \<lparr>A = a, B = b, C = c, instructionPointer = 0\<rparr>,
                    output_m = []\<rparr>)"
  by (subst run.simps) (simp add: isHalted_def Computer_def)

text \<open>
  C6. With A = 0, B = 0, C = 9 and the program 2,6 the run returns with B = 1 (the
  combo operand 6 is register C, and 9 mod 8 = 1), A and C as they were, an empty
  output and the instruction pointer at 2.
\<close>

theorem run_bst_example:
  "run (Computer \<lparr>instructions = [2, 6]\<rparr> 0 0 9)
     = Some (Inr \<lparr>program_m = \<lparr>instructions = [2, 6]\<rparr>,
                  state_m = \<lparr>A = 0, B = 1, C = 9, instructionPointer = 2\<rparr>,
                  output_m = []\<rparr>)"
proof -
  have one: "executeInstruction (Computer \<lparr>instructions = [2, 6]\<rparr> 0 0 9)
     = Inr \<lparr>program_m = \<lparr>instructions = [2, 6]\<rparr>,
            state_m = \<lparr>A = 0, B = 1, C = 9, instructionPointer = 2\<rparr>,
            output_m = []\<rparr>"
    by (simp add: isHalted_def Computer_def executeInstruction_def at_vec_def
        switch_opcode_def resolveCombo_def rem8_def advance_def)
  have "\<not> isHalted (Computer \<lparr>instructions = [2, 6]\<rparr> 0 0 9)"
    by (simp add: isHalted_def Computer_def)
  then have "run (Computer \<lparr>instructions = [2, 6]\<rparr> 0 0 9)
     = run \<lparr>program_m = \<lparr>instructions = [2, 6]\<rparr>,
            state_m = \<lparr>A = 0, B = 1, C = 9, instructionPointer = 2\<rparr>,
            output_m = []\<rparr>"
    by (subst run.simps) (simp add: one)
  also have "\<dots> = Some (Inr \<lparr>program_m = \<lparr>instructions = [2, 6]\<rparr>,
            state_m = \<lparr>A = 0, B = 1, C = 9, instructionPointer = 2\<rparr>,
            output_m = []\<rparr>)"
    by (subst run.simps) (simp add: isHalted_def)
  finally show ?thesis .
qed

text \<open>Consecutive steps: a halted state is a fixed point.\<close>

lemma steps_halted: "isHalted c \<Longrightarrow> steps n c = Inr c"
  by (induction n) (simp_all add: executeInstruction_def)

text \<open>\<^verbatim>\<open>run\<close> returns exactly the outcomes that finitely many steps reach and stop at.\<close>

lemma steps_run:
  "finished (steps n c) \<Longrightarrow> run c = Some (steps n c)"
proof (induction n arbitrary: c)
  case 0
  then show ?case
    by (subst run.simps) simp
next
  case (Suc n)
  show ?case
  proof (cases "isHalted c")
    case True
    then show ?thesis
      by (subst run.simps) (simp add: steps_halted del: steps.simps)
  next
    case False
    show ?thesis
    proof (cases "executeInstruction c")
      case (Inl f)
      with False show ?thesis
        by (subst run.simps) simp
    next
      case (Inr c')
      with Suc.prems have "finished (steps n c')"
        by simp
      then have "run c' = Some (steps n c')"
        by (rule Suc.IH)
      with False Inr show ?thesis
        by (subst run.simps) simp
    qed
  qed
qed

lemma run_steps:
  assumes "run c = Some r"
  shows "\<exists>n. steps n c = r \<and> finished r"
proof (rule run.raw_induct [where P = "\<lambda>c r. \<exists>n. steps n c = r \<and> finished r", OF _ assms])
  fix run' c r
  assume IH: "\<And>x y. run' x = Some y \<Longrightarrow> \<exists>n. steps n x = y \<and> finished y"
    and body: "(if isHalted c then Some (Inr c)
          else case executeInstruction c of
                 Inl f \<Rightarrow> Some (Inl f)
               | Inr c' \<Rightarrow> run' c') = Some r"
  show "\<exists>n. steps n c = r \<and> finished r"
  proof (cases "isHalted c")
    case True
    with body have "steps 0 c = r \<and> finished r"
      by auto
    then show ?thesis
      by blast
  next
    case False
    show ?thesis
    proof (cases "executeInstruction c")
      case (Inl f)
      with False body have "steps 1 c = r \<and> finished r"
        by auto
      then show ?thesis
        by blast
    next
      case (Inr c')
      with False body have "run' c' = Some r"
        by simp
      then obtain n where "steps n c' = r \<and> finished r"
        using IH by blast
      with Inr have "steps (Suc n) c = r \<and> finished r"
        by simp
      then show ?thesis
        by blast
    qed
  qed
qed

subsection \<open>The output\<close>

text \<open>Signed readings of the results of the operations on registers.\<close>

lemma smod8_bounds: "- 7 \<le> (k::int) smod 8 \<and> k smod 8 \<le> 7"
  by (simp add: smod_int_alt_def sgn_if) presburger

lemma smod8_nonneg: "0 \<le> (k::int) \<Longrightarrow> 0 \<le> k smod 8"
  by (simp add: smod_int_alt_def sgn_if)

lemma sint_rem8: "sint (rem8 x) = sint x smod 8"
proof -
  have "- (2 ^ 63) \<le> sint x smod 8" "sint x smod 8 < 2 ^ 63"
    using smod8_bounds [of "sint x"] by simp_all
  then show ?thesis
    unfolding rem8_def by (simp add: sint_sbintrunc' signed_take_bit_int_eq_self)
qed

lemma sint_scast_rem8: "sint (scast (rem8 x) :: 32 word) = sint x smod 8"
proof -
  have "- (2 ^ 31) \<le> sint x smod 8" "sint x smod 8 < 2 ^ 31"
    using smod8_bounds [of "sint x"] by simp_all
  then show ?thesis
    by (simp add: scast_eq sint_rem8 sint_sbintrunc' signed_take_bit_int_eq_self)
qed

lemma sint_scast_up: "sint (scast (x :: 32 word) :: 64 word) = sint x"
  by (simp add: sint_up_scast is_up)

lemma sint_nonneg_iff: "0 \<le> sint (x :: 64 word) \<longleftrightarrow> \<not> bit x 63"
  using bit_last_iff [of x] by auto

lemma sint_xor_nonneg:
  "0 \<le> sint (x :: 64 word) \<Longrightarrow> 0 \<le> sint y \<Longrightarrow> 0 \<le> sint (x XOR y)"
  by (simp add: sint_nonneg_iff bit_simps)

lemma sint_shr_nonneg: "0 \<le> sint (x :: 64 word) \<Longrightarrow> 0 \<le> sint (signed_drop_bit n x)"
  by (simp add: sint_signed_drop_bit_eq drop_bit_eq_div pos_imp_zdiv_nonneg_iff)

text \<open>What one case of the \<^verbatim>\<open>switch\<close> can change.\<close>

lemma at_vec_mem: "at_vec xs i = Inr x \<Longrightarrow> x \<in> set xs"
  by (auto simp: at_vec_def split: if_splits)

lemma resolveCombo_nonneg:
  assumes "0 \<le> sint (A (state_m c))" "0 \<le> sint (B (state_m c))" "0 \<le> sint (C (state_m c))"
  shows "0 \<le> sint (resolveCombo c operand)"
  using assms by (auto simp: resolveCombo_def)

lemma switch_opcode_program:
  "switch_opcode c opcode operand = Inr (c', j) \<Longrightarrow> program_m c' = program_m c"
  by (auto simp: switch_opcode_def Let_def split: if_splits option.splits)

lemma switch_opcode_output:
  "switch_opcode c opcode operand = Inr (c', j) \<Longrightarrow>
     output_m c' = output_m c
     \<or> output_m c' = output_m c @ [scast (rem8 (resolveCombo c operand))]"
  by (auto simp: switch_opcode_def Let_def split: if_splits option.splits)

lemma switch_opcode_nonneg:
  assumes "switch_opcode c opcode operand = Inr (c', j)"
    and "0 \<le> sint (A (state_m c))" "0 \<le> sint (B (state_m c))" "0 \<le> sint (C (state_m c))"
    and "0 \<le> sint operand"
  shows "0 \<le> sint (A (state_m c')) \<and> 0 \<le> sint (B (state_m c')) \<and> 0 \<le> sint (C (state_m c'))"
  using assms resolveCombo_nonneg [OF assms(2,3,4), of operand]
  by (auto simp: switch_opcode_def Let_def shr_def sint_rem8 smod8_nonneg sint_xor_nonneg
      sint_shr_nonneg sint_scast_up split: if_splits option.splits)

lemma advance_fields:
  "program_m (advance c) = program_m c" "output_m (advance c) = output_m c"
  "A (state_m (advance c)) = A (state_m c)" "B (state_m (advance c)) = B (state_m c)"
  "C (state_m (advance c)) = C (state_m c)"
  by (simp_all add: advance_def)

lemma executeInstruction_cases:
  assumes "executeInstruction c = Inr c'"
  obtains "c' = c"
  | opcode operand c1 j where "operand \<in> set (instructions (program_m c))"
      "switch_opcode c opcode operand = Inr (c1, j)" "c' = (if \<not> j then advance c1 else c1)"
  using assms
  by (auto simp: executeInstruction_def split: if_splits sum.splits prod.splits
      dest: at_vec_mem)

text \<open>One step keeps the inputs non-negative, and appends at most one value.\<close>

lemma executeInstruction_nonneg:
  assumes "executeInstruction c = Inr c'" and "nonneg_inputs c"
  shows "nonneg_inputs c'"
  using assms(1)
proof (cases rule: executeInstruction_cases)
  case 1
  with assms(2) show ?thesis
    by simp
next
  case (2 opcode operand c1 j)
  from assms(2) 2(1) have "0 \<le> sint operand"
    by (simp add: nonneg_inputs_def)
  with switch_opcode_nonneg [OF 2(2)] assms(2)
  have "0 \<le> sint (A (state_m c1)) \<and> 0 \<le> sint (B (state_m c1)) \<and> 0 \<le> sint (C (state_m c1))"
    by (simp add: nonneg_inputs_def)
  moreover have "program_m c1 = program_m c"
    using 2(2) by (rule switch_opcode_program)
  ultimately show ?thesis
    using assms(2) 2(3) by (simp add: nonneg_inputs_def advance_fields)
qed

lemma executeInstruction_output:
  assumes "executeInstruction c = Inr c'"
  shows "\<exists>ys. output_m c' = output_m c @ ys \<and> emitted_ok (nonneg_inputs c) ys"
  using assms
proof (cases rule: executeInstruction_cases)
  case 1
  then show ?thesis
    by (simp add: emitted_ok_def)
next
  case (2 opcode operand c1 j)
  let ?v = "scast (rem8 (resolveCombo c operand)) :: 32 word"
  have out: "output_m c' = output_m c1"
    using 2(3) by (simp add: advance_fields)
  have v: "emitted_ok (nonneg_inputs c) [?v]"
    using smod8_bounds [of "sint (resolveCombo c operand)"]
      smod8_nonneg [of "sint (resolveCombo c operand)"]
      resolveCombo_nonneg [of c operand]
    by (simp add: emitted_ok_def sint_scast_rem8 nonneg_inputs_def)
  from switch_opcode_output [OF 2(2)] show ?thesis
  proof
    assume "output_m c1 = output_m c"
    with out show ?thesis
      by (simp add: emitted_ok_def)
  next
    assume "output_m c1 = output_m c @ [?v]"
    with out v show ?thesis
      by simp
  qed
qed

lemma emitted_ok_append:
  "emitted_ok nn xs \<Longrightarrow> emitted_ok nn ys \<Longrightarrow> emitted_ok nn (xs @ ys)"
  by (auto simp: emitted_ok_def)

lemma steps_output:
  "steps n c = Inr c' \<Longrightarrow>
     \<exists>ys. output_m c' = output_m c @ ys \<and> emitted_ok (nonneg_inputs c) ys"
proof (induction n arbitrary: c)
  case 0
  then show ?case
    by (simp add: emitted_ok_def)
next
  case (Suc n)
  then obtain c1 where e: "executeInstruction c = Inr c1" and s: "steps n c1 = Inr c'"
    by (auto split: sum.splits)
  from executeInstruction_output [OF e] obtain xs
    where xs: "output_m c1 = output_m c @ xs" "emitted_ok (nonneg_inputs c) xs"
    by blast
  from Suc.IH [OF s] obtain ys
    where ys: "output_m c' = output_m c1 @ ys" "emitted_ok (nonneg_inputs c1) ys"
    by blast
  have "nonneg_inputs c \<Longrightarrow> nonneg_inputs c1"
    using e by (rule executeInstruction_nonneg)
  with ys(2) have "emitted_ok (nonneg_inputs c) ys"
    by (auto simp: emitted_ok_def)
  with xs ys(1) show ?case
    by (auto intro: emitted_ok_append)
qed

text \<open>
  C4, against the claim as stated: with register A = -1 the program 5,4 emits
  \<open>-1 % 8\<close>, which is -1 in C++ (the remainder takes the sign of the dividend), so
  the output holds a value outside \<open>[0, 7]\<close>.
\<close>

theorem emit_negative_register_counterexample:
  "run (Computer \<lparr>instructions = [5, 4]\<rparr> (- 1) 0 0)
     = Some (Inr \<lparr>program_m = \<lparr>instructions = [5, 4]\<rparr>,
                  state_m = \<lparr>A = - 1, B = 0, C = 0, instructionPointer = 2\<rparr>,
                  output_m = [- 1]\<rparr>)
   \<and> sint (- 1 :: 32 word) = - 1"
proof -
  let ?c = "Computer \<lparr>instructions = [5, 4]\<rparr> (- 1) 0 0"
  have f: "finished (steps 1 ?c)"
    by code_simp
  have s: "steps 1 ?c = Inr \<lparr>program_m = \<lparr>instructions = [5, 4]\<rparr>,
                  state_m = \<lparr>A = - 1, B = 0, C = 0, instructionPointer = 2\<rparr>,
                  output_m = [- 1]\<rparr>"
    by code_simp
  from steps_run [OF f] show ?thesis
    unfolding s by simp
qed

text \<open>
  C4, as the code has it. Take any state \<open>c1\<close> that a run from the constructed computer
  reaches and any state \<open>c2\<close> reached later. Every value of the output of \<open>c1\<close> lies
  in \<open>[-7, 7]\<close>; when the three initial registers and the entries of the program are
  non-negative (as for a program over 0 to 7), every value lies in \<open>[0, 7]\<close>; and the
  output of \<open>c2\<close> is that of \<open>c1\<close> with values appended, so nothing already emitted is
  ever changed.
\<close>

theorem emitted_values_in_range:
  assumes "steps n (Computer p a b c) = Inr c1" and "steps k c1 = Inr c2"
  shows "(\<forall>v \<in> set (output_m c1). - 7 \<le> sint v \<and> sint v \<le> 7)
       \<and> (0 \<le> sint a \<and> 0 \<le> sint b \<and> 0 \<le> sint c
            \<and> (\<forall>x \<in> set (instructions p). 0 \<le> sint x)
          \<longrightarrow> (\<forall>v \<in> set (output_m c1). 0 \<le> sint v \<and> sint v \<le> 7))
       \<and> (\<exists>ys. output_m c2 = output_m c1 @ ys)"
proof -
  from steps_output [OF assms(1)] obtain ys
    where "output_m c1 = ys" "emitted_ok (nonneg_inputs (Computer p a b c)) ys"
    by (auto simp: Computer_def)
  moreover have "nonneg_inputs (Computer p a b c) \<longleftrightarrow>
      0 \<le> sint a \<and> 0 \<le> sint b \<and> 0 \<le> sint c \<and> (\<forall>x \<in> set (instructions p). 0 \<le> sint x)"
    by (simp add: nonneg_inputs_def Computer_def)
  moreover from steps_output [OF assms(2)] have "\<exists>ys. output_m c2 = output_m c1 @ ys"
    by blast
  ultimately show ?thesis
    by (auto simp: emitted_ok_def)
qed

theorem emitted_values_in_range_witness:
  "steps 1 (Computer \<lparr>instructions = [5, 4, 5, 1]\<rparr> 10 0 0)
     = Inr \<lparr>program_m = \<lparr>instructions = [5, 4, 5, 1]\<rparr>,
            state_m = \<lparr>A = 10, B = 0, C = 0, instructionPointer = 2\<rparr>,
            output_m = [2]\<rparr>
   \<and> steps 1 \<lparr>program_m = \<lparr>instructions = [5, 4, 5, 1]\<rparr>,
            state_m = \<lparr>A = 10, B = 0, C = 0, instructionPointer = 2\<rparr>,
            output_m = [2]\<rparr>
     = Inr \<lparr>program_m = \<lparr>instructions = [5, 4, 5, 1]\<rparr>,
            state_m = \<lparr>A = 10, B = 0, C = 0, instructionPointer = 4\<rparr>,
            output_m = [2, 1]\<rparr>
   \<and> 0 \<le> sint (10 :: 64 word) \<and> 0 \<le> sint (0 :: 64 word)
   \<and> list_all (\<lambda>x. 0 \<le> sint x) [5, 4, 5, 1 :: 32 word]
   \<and> list_all (\<lambda>v. 0 \<le> sint v \<and> sint v \<le> 7) [2 :: 32 word]
   \<and> (\<exists>ys. [2, 1 :: 32 word] = [2] @ ys)"
proof -
  have s1: "steps 1 (Computer \<lparr>instructions = [5, 4, 5, 1]\<rparr> 10 0 0)
     = Inr \<lparr>program_m = \<lparr>instructions = [5, 4, 5, 1]\<rparr>,
            state_m = \<lparr>A = 10, B = 0, C = 0, instructionPointer = 2\<rparr>,
            output_m = [2]\<rparr>"
    by code_simp
  have s2: "steps 1 \<lparr>program_m = \<lparr>instructions = [5, 4, 5, 1]\<rparr>,
            state_m = \<lparr>A = 10, B = 0, C = 0, instructionPointer = 2\<rparr>,
            output_m = [2]\<rparr>
     = Inr \<lparr>program_m = \<lparr>instructions = [5, 4, 5, 1]\<rparr>,
            state_m = \<lparr>A = 10, B = 0, C = 0, instructionPointer = 4\<rparr>,
            output_m = [2, 1]\<rparr>"
    by code_simp
  from emitted_values_in_range [OF s1 s2] s1 s2 show ?thesis
    by simp
qed

section \<open>Properties of the parser\<close>

subsection \<open>A missing register line\<close>

text \<open>A line changes a register member only through the branch of its own keyword.\<close>

lemma parseLine_keeps_A:
  "\<not> starts_with line ''Register A:'' \<Longrightarrow> parseLine result line = Inr result' \<Longrightarrow>
     ParsedInput.A result' = ParsedInput.A result"
  by (auto simp: parseLine_def split: if_splits sum.splits)

lemma parseLine_keeps_B:
  "\<not> starts_with line ''Register B:'' \<Longrightarrow> parseLine result line = Inr result' \<Longrightarrow>
     ParsedInput.B result' = ParsedInput.B result"
  by (auto simp: parseLine_def split: if_splits sum.splits)

lemma parseLine_keeps_C:
  "\<not> starts_with line ''Register C:'' \<Longrightarrow> parseLine result line = Inr result' \<Longrightarrow>
     ParsedInput.C result' = ParsedInput.C result"
  by (auto simp: parseLine_def split: if_splits sum.splits)

lemma parseLines_keeps:
  assumes step: "\<And>line r r'. line \<in> set input \<Longrightarrow> parseLine r line = Inr r' \<Longrightarrow> f r' = f r"
  shows "parseLines result input = Inr result' \<Longrightarrow> f result' = f result"
  using step
proof (induction input arbitrary: result)
  case Nil
  then show ?case
    by simp
next
  case (Cons line input)
  from Cons.prems(1) obtain r1 where l: "parseLine result line = Inr r1"
    and r: "parseLines r1 input = Inr result'"
    by (auto split: sum.splits)
  from l have "f r1 = f result"
    by (rule Cons.prems(2) [rotated]) simp
  moreover from r have "f result' = f r1"
    by (rule Cons.IH) (auto intro: Cons.prems(2))
  ultimately show ?case
    by simp
qed

lemma parseLines_error_from_line:
  "parseLines result input = Inl e \<Longrightarrow> \<exists>line \<in> set input. \<exists>r. parseLine r line = Inl e"
proof (induction input arbitrary: result)
  case Nil
  then show ?case
    by simp
next
  case (Cons line input)
  show ?case
  proof (cases "parseLine result line")
    case (Inl e')
    with Cons.prems have "e' = e"
      by simp
    with Inl show ?thesis
      by auto
  next
    case (Inr r1)
    with Cons.prems have "parseLines r1 input = Inl e"
      by simp
    from Cons.IH [OF this] show ?thesis
      by auto
  qed
qed

text \<open>
  A register line that converts assigns its member and nothing else; every other line
  does the same to a result whatever that member holds.
\<close>

lemma starts_with_length:
  assumes "starts_with s pre"
  shows "length pre \<le> length s"
proof -
  from assms have "length (take (length pre) s) = length pre"
    by (simp only: starts_with_def)
  then show ?thesis
    by simp
qed

lemma parseLine_register_A:
  assumes "starts_with line ''Register A:''" and "stoll (drop 11 line) = Inr v"
  shows "parseLine r line = Inr (r\<lparr>ParsedInput.A := Some v\<rparr>)"
proof -
  have "11 \<le> length line"
    using starts_with_length [OF assms(1)] by simp
  then show ?thesis
    using assms by (simp add: parseLine_def substr_def)
qed

lemma parseLine_register_B:
  assumes "starts_with line ''Register B:''" and "stoll (drop 11 line) = Inr v"
  shows "parseLine r line = Inr (r\<lparr>ParsedInput.B := Some v\<rparr>)"
proof -
  have "\<not> starts_with line ''Register A:''"
    using assms(1) by (auto simp: starts_with_def)
  moreover have "11 \<le> length line"
    using starts_with_length [OF assms(1)] by simp
  ultimately show ?thesis
    using assms by (simp add: parseLine_def substr_def)
qed

lemma parseLine_register_C:
  assumes "starts_with line ''Register C:''" and "stoll (drop 11 line) = Inr v"
  shows "parseLine r line = Inr (r\<lparr>ParsedInput.C := Some v\<rparr>)"
proof -
  have "\<not> starts_with line ''Register A:''" "\<not> starts_with line ''Register B:''"
    using assms(1) by (auto simp: starts_with_def)
  moreover have "11 \<le> length line"
    using starts_with_length [OF assms(1)] by simp
  ultimately show ?thesis
    using assms by (simp add: parseLine_def substr_def)
qed

lemma parseLine_commutes_A:
  "\<not> starts_with line ''Register A:'' \<Longrightarrow>
     parseLine (r\<lparr>ParsedInput.A := x\<rparr>) line
       = (case parseLine r line of
            Inl e \<Rightarrow> Inl e
          | Inr r' \<Rightarrow> Inr (r'\<lparr>ParsedInput.A := x\<rparr>))"
  by (auto simp: parseLine_def split: sum.splits)

lemma parseLine_commutes_B:
  "\<not> starts_with line ''Register B:'' \<Longrightarrow>
     parseLine (r\<lparr>ParsedInput.B := x\<rparr>) line
       = (case parseLine r line of
            Inl e \<Rightarrow> Inl e
          | Inr r' \<Rightarrow> Inr (r'\<lparr>ParsedInput.B := x\<rparr>))"
  by (auto simp: parseLine_def split: sum.splits)

lemma parseLine_commutes_C:
  "\<not> starts_with line ''Register C:'' \<Longrightarrow>
     parseLine (r\<lparr>ParsedInput.C := x\<rparr>) line
       = (case parseLine r line of
            Inl e \<Rightarrow> Inl e
          | Inr r' \<Rightarrow> Inr (r'\<lparr>ParsedInput.C := x\<rparr>))"
  by (auto simp: parseLine_def split: sum.splits)

text \<open>The loop over the lines, with one line taken out of the input.\<close>

lemma parseLines_append:
  "parseLines r (xs @ zs) =
     (case parseLines r xs of Inl e \<Rightarrow> Inl e | Inr r' \<Rightarrow> parseLines r' zs)"
  by (induction xs arbitrary: r) (auto split: sum.splits)

lemma parseLines_commutes:
  assumes "\<And>line r. line \<in> set ls \<Longrightarrow>
     parseLine (u r) line = (case parseLine r line of Inl e \<Rightarrow> Inl e | Inr r' \<Rightarrow> Inr (u r'))"
  shows "parseLines (u r) ls
     = (case parseLines r ls of Inl e \<Rightarrow> Inl e | Inr r' \<Rightarrow> Inr (u r'))"
  using assms
proof (induction ls arbitrary: r)
  case Nil
  then show ?case
    by simp
next
  case (Cons line ls)
  have l: "parseLine (u r) line
      = (case parseLine r line of Inl e \<Rightarrow> Inl e | Inr r' \<Rightarrow> Inr (u r'))"
    by (rule Cons.prems) simp
  have rest: "parseLines (u r') ls
      = (case parseLines r' ls of Inl e \<Rightarrow> Inl e | Inr r'' \<Rightarrow> Inr (u r''))" for r'
    by (rule Cons.IH) (simp add: Cons.prems)
  show ?case
    by (simp add: l rest split: sum.splits)
qed

lemma parseLines_insert:
  assumes line: "\<And>r. parseLine r l = Inr (u r)"
    and comm: "\<And>line r. line \<in> set ys \<Longrightarrow>
       parseLine (u r) line = (case parseLine r line of Inl e \<Rightarrow> Inl e | Inr r' \<Rightarrow> Inr (u r'))"
  shows "parseLines r (xs @ l # ys)
     = (case parseLines r (xs @ ys) of Inl e \<Rightarrow> Inl e | Inr r' \<Rightarrow> Inr (u r'))"
proof (cases "parseLines r xs")
  case (Inl e)
  then show ?thesis
    by (simp add: parseLines_append)
next
  case (Inr r1)
  have "parseLines (u r1) ys
      = (case parseLines r1 ys of Inl e \<Rightarrow> Inl e | Inr r' \<Rightarrow> Inr (u r'))"
    using comm by (rule parseLines_commutes)
  with Inr show ?thesis
    by (simp add: parseLines_append line)
qed

text \<open>
  C3, against the claim as stated: an input with no line for register B is parsed
  without any error; the result has the values of the lines present and a member B
  that was never assigned.
\<close>

theorem parseInput_missing_B_counterexample:
  "parseInput [''Register A: 729'', ''Register C: 0'', '''', ''Program: 0,1,5,4,3,0'']
     = Inr \<lparr>ParsedInput.A = Some 729, ParsedInput.B = None, ParsedInput.C = Some 0,
            program = [0, 1, 5, 4, 3, 0]\<rparr>"
  by (simp add: parseInput_def parseLine_def starts_with_def substr_def stoll_def stoi_def
      strtol_value_def isspace_def isdigit_def digits_value_def getline_def)

text \<open>
  C3, as the code has it. \<^verbatim>\<open>parseInput\<close> has no check for a missing line and no
  error of its own. Take a description \<open>xs @ l # ys\<close> in which \<open>l\<close> is the only line
  of one register and converts to \<open>v\<close>, and take \<open>l\<close> out. Parsing what is left,
  \<open>xs @ ys\<close>, raises an exception exactly where the complete description raises the
  same one; otherwise it returns the result of the complete description with that
  register left unassigned instead of holding \<open>v\<close>: the other registers and the program
  are what the lines present give. This holds for each of the three registers. Every
  exception of \<^verbatim>\<open>parseInput\<close> is the exception of a line that is present (a number
  that \<^verbatim>\<open>stoll\<close> or \<^verbatim>\<open>stoi\<close> cannot convert, or the \<^verbatim>\<open>substr\<close> of a bare
  \<^verbatim>\<open>Program:\<close>), never the report of an absent one.
\<close>

theorem parseInput_missing_register:
  assumes "stoll (drop 11 l) = Inr v"
  shows "(starts_with l ''Register A:''
          \<and> (\<forall>line \<in> set (xs @ ys). \<not> starts_with line ''Register A:'') \<longrightarrow>
            (case parseInput (xs @ ys) of
               Inl e \<Rightarrow> parseInput (xs @ l # ys) = Inl e
             | Inr r \<Rightarrow> ParsedInput.A r = None
                        \<and> parseInput (xs @ l # ys) = Inr (r\<lparr>ParsedInput.A := Some v\<rparr>)))
       \<and> (starts_with l ''Register B:''
          \<and> (\<forall>line \<in> set (xs @ ys). \<not> starts_with line ''Register B:'') \<longrightarrow>
            (case parseInput (xs @ ys) of
               Inl e \<Rightarrow> parseInput (xs @ l # ys) = Inl e
             | Inr r \<Rightarrow> ParsedInput.B r = None
                        \<and> parseInput (xs @ l # ys) = Inr (r\<lparr>ParsedInput.B := Some v\<rparr>)))
       \<and> (starts_with l ''Register C:''
          \<and> (\<forall>line \<in> set (xs @ ys). \<not> starts_with line ''Register C:'') \<longrightarrow>
            (case parseInput (xs @ ys) of
               Inl e \<Rightarrow> parseInput (xs @ l # ys) = Inl e
             | Inr r \<Rightarrow> ParsedInput.C r = None
                        \<and> parseInput (xs @ l # ys) = Inr (r\<lparr>ParsedInput.C := Some v\<rparr>)))
       \<and> (\<forall>e. parseInput (xs @ ys) = Inl e \<longrightarrow>
            (\<exists>line \<in> set (xs @ ys). \<exists>r. parseLine r line = Inl e))"
proof -
  let ?r0 = "\<lparr>ParsedInput.A = None, ParsedInput.B = None, ParsedInput.C = None, program = []\<rparr>"
  have a: "case parseInput (xs @ ys) of
               Inl e \<Rightarrow> parseInput (xs @ l # ys) = Inl e
             | Inr r \<Rightarrow> ParsedInput.A r = None
                        \<and> parseInput (xs @ l # ys) = Inr (r\<lparr>ParsedInput.A := Some v\<rparr>)"
    if kw: "starts_with l ''Register A:''"
      and no: "\<forall>line \<in> set (xs @ ys). \<not> starts_with line ''Register A:''"
  proof -
    have ins: "parseLines ?r0 (xs @ l # ys)
        = (case parseLines ?r0 (xs @ ys) of
             Inl e \<Rightarrow> Inl e
           | Inr r' \<Rightarrow> Inr (r'\<lparr>ParsedInput.A := Some v\<rparr>))"
      using kw no assms
      by (intro parseLines_insert parseLine_register_A parseLine_commutes_A) auto
    have none: "ParsedInput.A r = None" if "parseLines ?r0 (xs @ ys) = Inr r" for r
    proof -
      have "ParsedInput.A r = ParsedInput.A ?r0"
        using that no
        by (intro parseLines_keeps [of "xs @ ys" ParsedInput.A ?r0 r])
          (auto dest: parseLine_keeps_A)
      then show ?thesis
        by simp
    qed
    show ?thesis
      unfolding parseInput_def ins using none by (auto split: sum.splits)
  qed
  have b: "case parseInput (xs @ ys) of
               Inl e \<Rightarrow> parseInput (xs @ l # ys) = Inl e
             | Inr r \<Rightarrow> ParsedInput.B r = None
                        \<and> parseInput (xs @ l # ys) = Inr (r\<lparr>ParsedInput.B := Some v\<rparr>)"
    if kw: "starts_with l ''Register B:''"
      and no: "\<forall>line \<in> set (xs @ ys). \<not> starts_with line ''Register B:''"
  proof -
    have ins: "parseLines ?r0 (xs @ l # ys)
        = (case parseLines ?r0 (xs @ ys) of
             Inl e \<Rightarrow> Inl e
           | Inr r' \<Rightarrow> Inr (r'\<lparr>ParsedInput.B := Some v\<rparr>))"
      using kw no assms
      by (intro parseLines_insert parseLine_register_B parseLine_commutes_B) auto
    have none: "ParsedInput.B r = None" if "parseLines ?r0 (xs @ ys) = Inr r" for r
    proof -
      have "ParsedInput.B r = ParsedInput.B ?r0"
        using that no
        by (intro parseLines_keeps [of "xs @ ys" ParsedInput.B ?r0 r])
          (auto dest: parseLine_keeps_B)
      then show ?thesis
        by simp
    qed
    show ?thesis
      unfolding parseInput_def ins using none by (auto split: sum.splits)
  qed
  have c: "case parseInput (xs @ ys) of
               Inl e \<Rightarrow> parseInput (xs @ l # ys) = Inl e
             | Inr r \<Rightarrow> ParsedInput.C r = None
                        \<and> parseInput (xs @ l # ys) = Inr (r\<lparr>ParsedInput.C := Some v\<rparr>)"
    if kw: "starts_with l ''Register C:''"
      and no: "\<forall>line \<in> set (xs @ ys). \<not> starts_with line ''Register C:''"
  proof -
    have ins: "parseLines ?r0 (xs @ l # ys)
        = (case parseLines ?r0 (xs @ ys) of
             Inl e \<Rightarrow> Inl e
           | Inr r' \<Rightarrow> Inr (r'\<lparr>ParsedInput.C := Some v\<rparr>))"
      using kw no assms
      by (intro parseLines_insert parseLine_register_C parseLine_commutes_C) auto
    have none: "ParsedInput.C r = None" if "parseLines ?r0 (xs @ ys) = Inr r" for r
    proof -
      have "ParsedInput.C r = ParsedInput.C ?r0"
        using that no
        by (intro parseLines_keeps [of "xs @ ys" ParsedInput.C ?r0 r])
          (auto dest: parseLine_keeps_C)
      then show ?thesis
        by simp
    qed
    show ?thesis
      unfolding parseInput_def ins using none by (auto split: sum.splits)
  qed
  have e: "\<exists>line \<in> set (xs @ ys). \<exists>r. parseLine r line = Inl e"
    if "parseInput (xs @ ys) = Inl e" for e
    using that unfolding parseInput_def by (rule parseLines_error_from_line)
  from a b c e show ?thesis
    by blast
qed

theorem parseInput_missing_register_witness:
  "stoll (drop 11 ''Register B: 7'') = Inr 7
   \<and> starts_with ''Register B: 7'' ''Register B:''
   \<and> list_all (\<lambda>line. \<not> starts_with line ''Register B:'')
        ([''Register A: 10''] @ [''Register C: 9'', ''Program: 2,6''])
   \<and> parseInput ([''Register A: 10''] @ [''Register C: 9'', ''Program: 2,6''])
     = Inr \<lparr>ParsedInput.A = Some 10, ParsedInput.B = None, ParsedInput.C = Some 9,
            program = [2, 6]\<rparr>
   \<and> parseInput ([''Register A: 10''] @ ''Register B: 7'' # [''Register C: 9'', ''Program: 2,6''])
     = Inr \<lparr>ParsedInput.A = Some 10, ParsedInput.B = Some 7, ParsedInput.C = Some 9,
            program = [2, 6]\<rparr>"
proof -
  let ?xs = "[''Register A: 10'']"
  let ?ys = "[''Register C: 9'', ''Program: 2,6'']"
  let ?r = "\<lparr>ParsedInput.A = Some 10, ParsedInput.B = None, ParsedInput.C = Some 9,
            program = [2, 6]\<rparr>"
  have v: "stoll (drop 11 ''Register B: 7'') = Inr 7"
    by (simp add: stoll_def strtol_value_def isspace_def isdigit_def digits_value_def)
  have kw: "starts_with ''Register B: 7'' ''Register B:''"
    by (simp add: starts_with_def)
  have no: "\<forall>line \<in> set (?xs @ ?ys). \<not> starts_with line ''Register B:''"
    by (simp add: starts_with_def)
  have p: "parseInput (?xs @ ?ys) = Inr ?r"
    by (simp add: parseInput_def parseLine_def starts_with_def substr_def stoll_def stoi_def
        strtol_value_def isspace_def isdigit_def digits_value_def getline_def)
  from parseInput_missing_register [OF v, of ?xs ?ys] kw no
  have "case parseInput (?xs @ ?ys) of
               Inl e \<Rightarrow> parseInput (?xs @ ''Register B: 7'' # ?ys) = Inl e
             | Inr r \<Rightarrow> ParsedInput.B r = None
                        \<and> parseInput (?xs @ ''Register B: 7'' # ?ys)
                            = Inr (r\<lparr>ParsedInput.B := Some 7\<rparr>)"
    by blast
  then have "parseInput (?xs @ ''Register B: 7'' # ?ys) = Inr (?r\<lparr>ParsedInput.B := Some 7\<rparr>)"
    unfolding p by simp
  with v kw no p show ?thesis
    by (simp add: list_all_iff)
qed

subsection \<open>White space around a line\<close>















end
